theory Spec2Isabelle
  imports Main "HOL-Library.Multiset"
begin

section \<open>Sequential reduction protocol (new\_reduce/sequential/reduce.hpp)\<close>

text \<open>
  A reduction operator \<open>Op\<close> over a value type \<open>'a\<close>: the value of \<open>Op::identity()\<close>
  and the binary call \<open>Op{}(x, y)\<close>.
\<close>

record 'a Op =
  identity :: 'a
  call :: "'a \<Rightarrow> 'a \<Rightarrow> 'a"

text \<open>
  \<open>Reducer<Op, T>\<close> has a working value \<open>val\<close> and a pointer \<open>target\<close> to the
  accumulator. The functions of the protocol take reducers by reference and write
  through \<open>target\<close>, so reducers live in a store of objects (\<open>reducers\<close>, indexed by
  the object's identity) and the accumulators in a store of cells (\<open>cells\<close>, indexed by
  address). A \<open>Reducer &\<close> parameter is the identity of the object it is bound to.
\<close>

record 'a Reducer =
  val :: 'a
  target :: nat

record 'a memory =
  reducers :: "nat \<Rightarrow> 'a Reducer"
  cells :: "nat \<Rightarrow> 'a"

text \<open>\<open>init(red)\<close>: \<open>red.val = Reducer<OP,T>::op::identity();\<close>\<close>

definition init :: "'a Op \<Rightarrow> nat \<Rightarrow> 'a memory \<Rightarrow> 'a memory" where
  "init OP red m = m\<lparr>reducers := (reducers m)(red := (reducers m red)\<lparr>val := identity OP\<rparr>)\<rparr>"

text \<open>\<open>combine(out, in)\<close>: \<open>out.val = op{}(out.val, in.val);\<close>\<close>

definition combine :: "'a Op \<Rightarrow> nat \<Rightarrow> nat \<Rightarrow> 'a memory \<Rightarrow> 'a memory" where
  "combine OP out inp m =
     m\<lparr>reducers := (reducers m)
        (out := (reducers m out)\<lparr>val := call OP (val (reducers m out)) (val (reducers m inp))\<rparr>)\<rparr>"

text \<open>\<open>resolve(red)\<close>: \<open>*red.target = OP{}(red.val, *red.target);\<close>\<close>

definition resolve :: "'a Op \<Rightarrow> nat \<Rightarrow> 'a memory \<Rightarrow> 'a memory" where
  "resolve OP red m =
     m\<lparr>cells := (cells m)
        (target (reducers m red) :=
           call OP (val (reducers m red)) (cells m (target (reducers m red))))\<rparr>"

text \<open>The operator of the scenario: addition on the integers, identity 0.\<close>

definition plus_op :: "int Op" where
  "plus_op = \<lparr>identity = 0, call = (\<lambda>x y. x + y)\<rparr>"

text \<open>
  The scenario's memory: reducer 0 has \<open>val = 3\<close>, reducer 1 has \<open>val = 5\<close>, both point
  to cell 0, which holds 10.
\<close>

definition scenario_memory :: "int memory" where
  "scenario_memory =
     \<lparr>reducers = (\<lambda>r. if r = 0 then \<lparr>val = 3, target = 0\<rparr> else \<lparr>val = 5, target = 0\<rparr>),
      cells = (\<lambda>c. 10)\<rparr>"


section \<open>Argument descriptors and their normalisation (pattern/kernel/ArgHelper.hpp)\<close>

text \<open>\<open>camp::idx_t\<close>, the signed type of template index arguments.\<close>

type_synonym idx_t = int

text \<open>
  The statement arguments: the single descriptors \<open>Seg<id>\<close>, \<open>OffSet<id>\<close>, \<open>Param<id>\<close>
  and the list descriptors \<open>SegList<ids...>\<close>, \<open>OffSetList<ids...>\<close>,
  \<open>ParamList<ids...>\<close>. A \<open>camp::list<...>\<close> of such types is a list of descriptors.
\<close>

datatype descriptor =
  Seg idx_t
  | OffSet idx_t
  | Param idx_t
  | SegList "idx_t list"
  | OffSetList "idx_t list"
  | ParamList "idx_t list"

text \<open>
  \<open>catList<camp::list<itemsA...>, camp::list<itemsB...>>::makeList\<close>, with its
  specialisation for an empty second list.
\<close>

fun catList :: "descriptor list \<Rightarrow> descriptor list \<Rightarrow> descriptor list" where
  "catList itemsA [] = itemsA"
| "catList itemsA itemsB = itemsA @ itemsB"

text \<open>
  \<open>listMaker<Arg>::genList\<close>. The primary template gives the empty list; it is the
  one selected for a list descriptor without ids (\<open>SegList<>\<close>), which ends the recursion
  of the \<open>head, tail...\<close> specialisations.
\<close>

text \<open>The ids of a list descriptor: the recursion of \<open>listMaker\<close> consumes them.\<close>

fun ids_of :: "descriptor \<Rightarrow> idx_t list" where
  "ids_of (SegList ids) = ids"
| "ids_of (OffSetList ids) = ids"
| "ids_of (ParamList ids) = ids"
| "ids_of d = []"

function (sequential) listMaker :: "descriptor \<Rightarrow> descriptor list" where
  "listMaker (SegList (head # tail)) = catList [Seg head] (listMaker (SegList tail))"
| "listMaker (Seg idx) = [Seg idx]"
| "listMaker (OffSet idx) = [OffSet idx]"
| "listMaker (OffSetList (head # tail)) = catList [OffSet head] (listMaker (OffSetList tail))"
| "listMaker (ParamList (head # tail)) = catList [Param head] (listMaker (ParamList tail))"
| "listMaker (Param idx) = [Param idx]"
| "listMaker Arg = []"
  by pat_completeness auto
termination
  by (relation "measure (\<lambda>d. length (ids_of d))") auto

text \<open>\<open>parser<camp::list<...>>::checkArgs\<close>.\<close>

fun checkArgs :: "descriptor list \<Rightarrow> descriptor list" where
  "checkArgs [] = []"
| "checkArgs (Head # Tail) = catList (listMaker Head) (checkArgs Tail)"

text \<open>
  The normalisation as the specification words it: a list descriptor stands for its
  element descriptors in element order, a single descriptor for itself, and the
  flat sequence is the concatenation in source order.
\<close>

fun element_descriptors :: "descriptor \<Rightarrow> descriptor list" where
  "element_descriptors (SegList ids) = map Seg ids"
| "element_descriptors (OffSetList ids) = map OffSet ids"
| "element_descriptors (ParamList ids) = map Param ids"
| "element_descriptors d = [d]"

definition flat_sequence :: "descriptor list \<Rightarrow> descriptor list" where
  "flat_sequence ds = concat (map element_descriptors ds)"

fun is_single :: "descriptor \<Rightarrow> bool" where
  "is_single (Seg idx) = True"
| "is_single (OffSet idx) = True"
| "is_single (Param idx) = True"
| "is_single d = False"


section \<open>The execution context and argument extraction (pattern/kernel/ArgHelper.hpp)\<close>

text \<open>
  \<open>diff_t\<close> is the signed difference type of offsets and segment lengths. Its values
  are integers; the type has a fixed width, which the source files do not give, so the
  width in bits is a parameter. \<open>diff_t_max\<close> is the greatest value of the type, and
  \<open>diff_t_wrap\<close> the value that an addition leaves in a variable of the type: the sum
  itself when it is in range, the sum wrapped around (two's complement) when it is not.
\<close>

type_synonym diff_t = int

definition diff_t_max :: "nat \<Rightarrow> int" where
  "diff_t_max bits = 2 ^ (bits - 1) - 1"

definition diff_t_wrap :: "nat \<Rightarrow> int \<Rightarrow> diff_t" where
  "diff_t_wrap bits x = (x + 2 ^ (bits - 1)) mod 2 ^ bits - 2 ^ (bits - 1)"

text \<open>
  The execution context \<open>Data\<close>: the tuple of segments, the tuple of current offsets
  and the tuple of parameters. A segment is the sequence of its index values, so that
  \<open>seg.begin()[k]\<close> is the \<open>k\<close>-th of them and \<open>seg.end() - seg.begin()\<close> their number.
  Parameter slots hold scalars.
\<close>

record Data =
  segment_tuple :: "int list list"
  offset_tuple :: "diff_t list"
  param_tuple :: "int list"

text \<open>
  \<open>camp::get<id>(tuple)\<close>: the slot at position \<open>id\<close>. A position outside the tuple
  does not compile; that is \<open>None\<close>.
\<close>

definition camp_get :: "idx_t \<Rightarrow> 'a list \<Rightarrow> 'a option" where
  "camp_get idx t = (if 0 \<le> idx \<and> idx < int (length t) then Some (t ! nat idx) else None)"

text \<open>
  \<open>seg.begin()[k]\<close>: the \<open>k\<close>-th index value of the segment. Outside the segment the
  read has no defined value.
\<close>

definition begin_at :: "int list \<Rightarrow> diff_t \<Rightarrow> int option" where
  "begin_at seg k = (if 0 \<le> k \<and> k < int (length seg) then Some (seg ! nat k) else None)"

text \<open>
  What an extractor hands out. \<open>extractor<OffSet<id>>\<close> and \<open>extractor<Param<id>>\<close>
  return \<open>decltype(camp::get<id>(tuple))\<close>, the slot itself; \<open>extractor<Seg<id>>\<close>
  returns the element \<open>begin()[offset]\<close> of the segment.
\<close>

datatype argument =
  OffsetSlot idx_t
  | SegmentValue int
  | ParamSlot idx_t

text \<open>
  Extraction fails to build for a descriptor whose id is in no tuple, or that has no
  extractor specialisation (the primary template has no \<open>extract_arg\<close>); reading a
  segment outside its range has no defined value.
\<close>

datatype failure =
  Unresolvable descriptor
  | OutsideSegment idx_t diff_t

text \<open>
  \<open>extractor<...>::extract_arg(Data &&data)\<close>. The context is passed by reference,
  so the function returns it next to its result.
\<close>

fun extract_arg :: "descriptor \<Rightarrow> Data \<Rightarrow> (failure + argument) \<times> Data" where
  "extract_arg (OffSet idx) data =
     (case camp_get idx (offset_tuple data) of
        None \<Rightarrow> (Inl (Unresolvable (OffSet idx)), data)
      | Some off \<Rightarrow> (Inr (OffsetSlot idx), data))"
| "extract_arg (Seg idx) data =
     (case (camp_get idx (segment_tuple data), camp_get idx (offset_tuple data)) of
        (Some seg, Some off) \<Rightarrow>
          (case begin_at seg off of
             None \<Rightarrow> (Inl (OutsideSegment idx off), data)
           | Some v \<Rightarrow> (Inr (SegmentValue v), data))
      | _ \<Rightarrow> (Inl (Unresolvable (Seg idx)), data))"
| "extract_arg (Param idx) data =
     (case camp_get idx (param_tuple data) of
        None \<Rightarrow> (Inl (Unresolvable (Param idx)), data)
      | Some p \<Rightarrow> (Inr (ParamSlot idx), data))"
| "extract_arg Head data = (Inl (Unresolvable Head), data)"

text \<open>
  \<open>call_extractor<camp::list<Args...>>::make_tuple(data)\<close>:
  \<open>camp::make_tuple(extractor<Args>::extract_arg(data) ...)\<close>, one entry per descriptor,
  in the order of the list.
\<close>

fun make_tuple :: "descriptor list \<Rightarrow> Data \<Rightarrow> (failure + argument list) \<times> Data" where
  "make_tuple [] data = (Inr [], data)"
| "make_tuple (Arg # Args) data =
     (case extract_arg Arg data of
        (Inl e, data1) \<Rightarrow> (Inl e, data1)
      | (Inr a, data1) \<Rightarrow>
          (case make_tuple Args data1 of
             (Inl e, data2) \<Rightarrow> (Inl e, data2)
           | (Inr as, data2) \<Rightarrow> (Inr (a # as), data2)))"

text \<open>The value an argument stands for in a context: what the kernel body reads.\<close>

fun argument_value :: "Data \<Rightarrow> argument \<Rightarrow> int option" where
  "argument_value data (OffsetSlot idx) = camp_get idx (offset_tuple data)"
| "argument_value data (SegmentValue v) = Some v"
| "argument_value data (ParamSlot idx) = camp_get idx (param_tuple data)"


text \<open>The context of the examples: three segments, their offsets, three parameters.\<close>

definition example_data :: Data where
  "example_data =
     \<lparr>segment_tuple = [[10, 11, 12], [20, 21], [30]],
      offset_tuple = [1, 0, 0],
      param_tuple = [7, 8, 9]\<rparr>"


section \<open>HIP executors of ForICount (policy/hip/kernel/ForICount.hpp)\<close>

text \<open>
  Modelled from the spec: \<open>segment_length<ArgumentId>(data)\<close>,
  \<open>data.assign_offset<ArgumentId>(i)\<close> and \<open>data.assign_param<ParamId>(i)\<close> belong to the
  execution context, which is not in the source files. The length of a segment is the
  number of its index values; \<open>assign_offset\<close> writes the index into the offset slot
  and \<open>assign_param\<close> into the parameter slot. An id outside the tuple does not
  compile, so the theorems take ids inside it.
\<close>

definition segment_length :: "idx_t \<Rightarrow> Data \<Rightarrow> diff_t" where
  "segment_length ArgumentId data = int (length (segment_tuple data ! nat ArgumentId))"

definition assign_offset :: "idx_t \<Rightarrow> diff_t \<Rightarrow> Data \<Rightarrow> Data" where
  "assign_offset ArgumentId i data =
     data\<lparr>offset_tuple := (offset_tuple data)[nat ArgumentId := i]\<rparr>"

definition assign_param :: "idx_t \<Rightarrow> diff_t \<Rightarrow> Data \<Rightarrow> Data" where
  "assign_param ParamId i data =
     data\<lparr>param_tuple := (param_tuple data)[nat ParamId := i]\<rparr>"

text \<open>
  What an executor is built with and what an execution unit sees of the hardware: the
  constant \<open>RAJA::policy::hip::WARP_SIZE\<close> and the width in bits of \<open>Base::diff_t\<close>
  (neither is in the source files, so both are parameters), and the unit's own
  \<open>threadIdx.x\<close>.
\<close>

record hip =
  WARP_SIZE :: int
  diff_t_bits :: nat
  threadIdx_x :: nat

text \<open>
  A bit mask type \<open>Mask\<close> (not in the source files) is what the executors use of it:
  \<open>mask_t::maskValue\<close> and \<open>mask_t::max_masked_size\<close>. An \<open>Indexer\<close> likewise:
  \<open>Indexer::index<diff_t>()\<close> and \<open>Indexer::size<diff_t>()\<close>, which read the unit's
  position in the launch.
\<close>

record Mask =
  maskValue :: "diff_t \<Rightarrow> diff_t"
  max_masked_size :: nat

record Indexer =
  Indexer_index :: "hip \<Rightarrow> diff_t"
  Indexer_size :: "hip \<Rightarrow> diff_t"

text \<open>The execution policies that select a specialisation of the executor.\<close>

datatype policy =
  hip_warp_direct
  | hip_warp_loop
  | hip_warp_masked_direct Mask
  | hip_warp_masked_loop Mask
  | hip_thread_masked_direct Mask
  | hip_thread_masked_loop Mask
  | HipIndexDirect Indexer
  | HipIndexLoop Indexer
  | seq_exec

text \<open>
  The enclosed statements, \<open>enclosed_stmts_t::exec(data, thread_active)\<close>: they work
  on the context, under the flag. An executor's run is recorded as the context it
  leaves and the calls it made to the enclosed statements: the context handed over
  and the flag, in the order of the calls.
\<close>

type_synonym enclosed_stmts_t = "Data \<Rightarrow> bool \<Rightarrow> Data"

type_synonym invocation = "Data \<times> bool"

text \<open>
  The loop of the strided executors,
  \<open>for (diff_t ii = 0; ii < len; ii += i_stride) { diff_t i = ii + i_init; ... }\<close>. It
  is the same text in the four of them, which differ in \<open>i_init\<close> and \<open>i_stride\<close>.
  The two additions are additions of \<open>diff_t\<close>: a sum outside the range of the type
  wraps around. A loop that does not end is \<open>None\<close>.
\<close>

partial_function (option) strided_loop ::
  "nat \<Rightarrow> enclosed_stmts_t \<Rightarrow> idx_t \<Rightarrow> idx_t \<Rightarrow> diff_t \<Rightarrow> diff_t \<Rightarrow> diff_t \<Rightarrow> bool \<Rightarrow>
   diff_t \<Rightarrow> Data \<Rightarrow> invocation list \<Rightarrow> (Data \<times> invocation list) option" where
  "strided_loop bits enclosed ArgumentId ParamId len i_init i_stride thread_active ii data calls =
     (if ii < len then
        let i = diff_t_wrap bits (ii + i_init);
            have_work = i < len;
            data1 = assign_offset ArgumentId i data;
            data2 = assign_param ParamId i data1
        in strided_loop bits enclosed ArgumentId ParamId len i_init i_stride thread_active
             (diff_t_wrap bits (ii + i_stride))
             (enclosed data2 (thread_active \<and> have_work))
             (calls @ [(data2, thread_active \<and> have_work)])
      else Some (data, calls))"

declare strided_loop.simps [code]

text \<open>The loop of the sequential executor, \<open>for (diff_t i = 0; i < len; ++i) { ... }\<close>.\<close>

function seq_loop ::
  "enclosed_stmts_t \<Rightarrow> idx_t \<Rightarrow> idx_t \<Rightarrow> diff_t \<Rightarrow> bool \<Rightarrow>
   diff_t \<Rightarrow> Data \<Rightarrow> invocation list \<Rightarrow> Data \<times> invocation list" where
  "seq_loop enclosed ArgumentId ParamId len thread_active i data calls =
     (if i < len then
        let data1 = assign_offset ArgumentId i data;
            data2 = assign_param ParamId i data1
        in seq_loop enclosed ArgumentId ParamId len thread_active
             (i + 1)
             (enclosed data2 thread_active)
             (calls @ [(data2, thread_active)])
      else (data, calls))"
  by pat_completeness auto
termination
  by (relation "measure (\<lambda>(enclosed, ArgumentId, ParamId, len, thread_active, i, data, calls).
        nat (len - i))") auto

declare seq_loop.simps [simp del]

text \<open>
  \<open>HipStatementExecutor<Data, statement::ForICount<ArgumentId, ParamId, policy,
  EnclosedStmts...>, Types>::exec(data, thread_active)\<close>, one equation for each
  specialisation, in the order of the file.
\<close>

fun HipStatementExecutor_exec ::
  "hip \<Rightarrow> enclosed_stmts_t \<Rightarrow> policy \<Rightarrow> idx_t \<Rightarrow> idx_t \<Rightarrow> Data \<Rightarrow> bool \<Rightarrow>
   (Data \<times> invocation list) option" where
  "HipStatementExecutor_exec hw enclosed hip_warp_direct ArgumentId ParamId data thread_active =
     (let len = segment_length ArgumentId data;
          i = int (threadIdx_x hw);
          data1 = assign_offset ArgumentId i data;
          data2 = assign_param ParamId i data1
      in Some (enclosed data2 (thread_active \<and> i < len), [(data2, thread_active \<and> i < len)]))"
| "HipStatementExecutor_exec hw enclosed hip_warp_loop ArgumentId ParamId data thread_active =
     (let len = segment_length ArgumentId data;
          i_init = int (threadIdx_x hw);
          i_stride = WARP_SIZE hw
      in strided_loop (diff_t_bits hw) enclosed ArgumentId ParamId len i_init i_stride
           thread_active 0 data [])"
| "HipStatementExecutor_exec hw enclosed (hip_warp_masked_direct mask_t) ArgumentId ParamId data
       thread_active =
     (let len = segment_length ArgumentId data;
          i = maskValue mask_t (int (threadIdx_x hw));
          data1 = assign_offset ArgumentId i data;
          data2 = assign_param ParamId i data1
      in Some (enclosed data2 (thread_active \<and> i < len), [(data2, thread_active \<and> i < len)]))"
| "HipStatementExecutor_exec hw enclosed (hip_warp_masked_loop mask_t) ArgumentId ParamId data
       thread_active =
     (let len = segment_length ArgumentId data;
          i_init = maskValue mask_t (int (threadIdx_x hw));
          i_stride = int (max_masked_size mask_t)
      in strided_loop (diff_t_bits hw) enclosed ArgumentId ParamId len i_init i_stride
           thread_active 0 data [])"
| "HipStatementExecutor_exec hw enclosed (hip_thread_masked_direct mask_t) ArgumentId ParamId data
       thread_active =
     (let len = segment_length ArgumentId data;
          i = maskValue mask_t (int (threadIdx_x hw));
          data1 = assign_offset ArgumentId i data;
          data2 = assign_param ParamId i data1
      in Some (enclosed data2 (thread_active \<and> i < len), [(data2, thread_active \<and> i < len)]))"
| "HipStatementExecutor_exec hw enclosed (hip_thread_masked_loop mask_t) ArgumentId ParamId data
       thread_active =
     (let len = segment_length ArgumentId data;
          i_init = maskValue mask_t (int (threadIdx_x hw));
          i_stride = int (max_masked_size mask_t)
      in strided_loop (diff_t_bits hw) enclosed ArgumentId ParamId len i_init i_stride
           thread_active 0 data [])"
| "HipStatementExecutor_exec hw enclosed (HipIndexDirect indexer) ArgumentId ParamId data
       thread_active =
     (let len = segment_length ArgumentId data;
          i = Indexer_index indexer hw;
          data1 = assign_offset ArgumentId i data;
          data2 = assign_param ParamId i data1
      in Some (enclosed data2 (thread_active \<and> i < len), [(data2, thread_active \<and> i < len)]))"
| "HipStatementExecutor_exec hw enclosed (HipIndexLoop indexer) ArgumentId ParamId data
       thread_active =
     (let len = segment_length ArgumentId data;
          i_init = Indexer_index indexer hw;
          i_stride = Indexer_size indexer hw
      in strided_loop (diff_t_bits hw) enclosed ArgumentId ParamId len i_init i_stride
           thread_active 0 data [])"
| "HipStatementExecutor_exec hw enclosed seq_exec ArgumentId ParamId data thread_active =
     (let len = segment_length ArgumentId data
      in Some (seq_loop enclosed ArgumentId ParamId len thread_active 0 data []))"

text \<open>
  The \<open>static_assert\<close> in the body of a specialisation, checked when the executor is
  instantiated for a policy and a warp size: the message of the assertion that fails,
  \<open>None\<close> when the specialisation has no assertion or it holds. The two masked warp
  specialisations have \<open>static_assert(mask_t::max_masked_size <= WARP_SIZE, "BitMask is
  too large for HIP warp size")\<close>; no other specialisation has an assertion.
\<close>

fun static_assert :: "int \<Rightarrow> policy \<Rightarrow> string option" where
  "static_assert warp_size (hip_warp_masked_direct mask_t) =
     (if int (max_masked_size mask_t) \<le> warp_size then None
      else Some ''BitMask is too large for HIP warp size'')"
| "static_assert warp_size (hip_warp_masked_loop mask_t) =
     (if int (max_masked_size mask_t) \<le> warp_size then None
      else Some ''BitMask is too large for HIP warp size'')"
| "static_assert warp_size p = None"

text \<open>
  The first lines of each specialisation, read off on their own: the index \<open>i\<close> of a
  direct mapping, and \<open>i_init\<close> and \<open>i_stride\<close> of a strided one.
\<close>

fun direct_mapping :: "hip \<Rightarrow> policy \<Rightarrow> diff_t option" where
  "direct_mapping hw hip_warp_direct = Some (int (threadIdx_x hw))"
| "direct_mapping hw (hip_warp_masked_direct mask_t) = Some (maskValue mask_t (int (threadIdx_x hw)))"
| "direct_mapping hw (hip_thread_masked_direct mask_t) = Some (maskValue mask_t (int (threadIdx_x hw)))"
| "direct_mapping hw (HipIndexDirect indexer) = Some (Indexer_index indexer hw)"
| "direct_mapping hw p = None"

fun strided_mapping :: "hip \<Rightarrow> policy \<Rightarrow> (diff_t \<times> diff_t) option" where
  "strided_mapping hw hip_warp_loop = Some (int (threadIdx_x hw), WARP_SIZE hw)"
| "strided_mapping hw (hip_warp_masked_loop mask_t) =
     Some (maskValue mask_t (int (threadIdx_x hw)), int (max_masked_size mask_t))"
| "strided_mapping hw (hip_thread_masked_loop mask_t) =
     Some (maskValue mask_t (int (threadIdx_x hw)), int (max_masked_size mask_t))"
| "strided_mapping hw (HipIndexLoop indexer) = Some (Indexer_index indexer hw, Indexer_size indexer hw)"
| "strided_mapping hw p = None"

text \<open>
  What a call shows of itself: the offset slot and the parameter slot of the context
  handed to the enclosed statements, and the flag. The indices of a run at which the
  enclosed statements were called with the flag set are its active indices.
\<close>

definition observed :: "idx_t \<Rightarrow> idx_t \<Rightarrow> invocation \<Rightarrow> diff_t \<times> int \<times> bool" where
  "observed ArgumentId ParamId c =
     (offset_tuple (fst c) ! nat ArgumentId, param_tuple (fst c) ! nat ParamId, snd c)"

definition active_indices :: "idx_t \<Rightarrow> invocation list \<Rightarrow> diff_t list" where
  "active_indices ArgumentId calls =
     map (\<lambda>c. offset_tuple (fst c) ! nat ArgumentId) (filter snd calls)"

text \<open>
  The iterations of a loop-bearing statement as the specification words them: for each
  index in turn, with its flag, the index is written into the offset slot and into the
  parameter slot of the context, and the enclosed statements are called on that
  context with the flag; their result is the context of the next iteration.
\<close>

fun iterations ::
  "enclosed_stmts_t \<Rightarrow> idx_t \<Rightarrow> idx_t \<Rightarrow> (diff_t \<times> bool) list \<Rightarrow> Data \<Rightarrow> invocation list \<Rightarrow>
   Data \<times> invocation list" where
  "iterations enclosed ArgumentId ParamId [] data calls = (data, calls)"
| "iterations enclosed ArgumentId ParamId ((i, active) # rest) data calls =
     iterations enclosed ArgumentId ParamId rest
       (enclosed (assign_param ParamId i (assign_offset ArgumentId i data)) active)
       (calls @ [(assign_param ParamId i (assign_offset ArgumentId i data), active)])"

text \<open>
  The indices a unit of a strided mapping goes through, \<open>u, u + s, u + 2s, ...\<close>, one
  for each chunk of \<open>s\<close> indices of the segment, each with its flag \<open>have_work\<close>
  (the index is below \<open>len\<close>).
\<close>

definition strided_indices :: "diff_t \<Rightarrow> diff_t \<Rightarrow> diff_t \<Rightarrow> (diff_t \<times> bool) list" where
  "strided_indices len s u =
     map (\<lambda>k. (int k * s + u, int k * s + u < len)) [0..<nat ((len + s - 1) div s)]"

text \<open>
  The tuples of a context have the sizes their types give them: the ids of a statement
  are positions of the tuples, and no statement changes the number of slots.
\<close>

definition has_slots :: "idx_t \<Rightarrow> idx_t \<Rightarrow> Data \<Rightarrow> bool" where
  "has_slots ArgumentId ParamId data =
     (0 \<le> ArgumentId \<and> ArgumentId < int (length (offset_tuple data))
      \<and> 0 \<le> ParamId \<and> ParamId < int (length (param_tuple data)))"

definition keeps_slots :: "enclosed_stmts_t \<Rightarrow> bool" where
  "keeps_slots enclosed =
     (\<forall>data active.
        length (offset_tuple (enclosed data active)) = length (offset_tuple data)
        \<and> length (param_tuple (enclosed data active)) = length (param_tuple data))"

text \<open>
  Enclosed statements that apply their effects only when active, as on lock-step
  hardware: called with the flag unset they leave the context as it is.
\<close>

definition respects_mask :: "enclosed_stmts_t \<Rightarrow> bool" where
  "respects_mask enclosed = (\<forall>data. enclosed data False = data)"

text \<open>
  The examples: a segment of length 10 in a context with one offset and one parameter,
  a kernel body that adds the offset to the parameter when active, and a mask that
  selects the two low bits of the lane.
\<close>

definition ten_data :: Data where
  "ten_data = \<lparr>segment_tuple = [[0, 1, 2, 3, 4, 5, 6, 7, 8, 9]], offset_tuple = [0], param_tuple = [0]\<rparr>"

definition sum_body :: enclosed_stmts_t where
  "sum_body data active =
     (if active
      then data\<lparr>param_tuple :=
                  (param_tuple data)[0 := param_tuple data ! 0 + offset_tuple data ! 0]\<rparr>
      else data)"

definition low_bits :: Mask where
  "low_bits = \<lparr>maskValue = (\<lambda>x. x mod 4), max_masked_size = 4\<rparr>"

text \<open>
  A launch with a 32-bit \<open>diff_t\<close>: a segment of \<open>2^30 + 2\<close> indices and an indexer
  over \<open>2^30 + 1\<close> units, each unit's index its \<open>threadIdx.x\<close>.
\<close>

definition long_segment :: "int list" where
  "long_segment = map int [0..<2 ^ 30 + 2]"

definition long_data :: Data where
  "long_data = \<lparr>segment_tuple = [long_segment], offset_tuple = [0], param_tuple = [0]\<rparr>"

definition wide_indexer :: Indexer where
  "wide_indexer = \<lparr>Indexer_index = (\<lambda>hw. int (threadIdx_x hw)), Indexer_size = (\<lambda>hw. 2 ^ 30 + 1)\<rparr>"

text \<open>A mask of seven bits, wider than a warp of 64 lanes.\<close>

definition wide_mask :: Mask where
  "wide_mask = \<lparr>maskValue = (\<lambda>x. x mod 128), max_masked_size = 128\<rparr>"


section \<open>The fused multiply-add expression (pattern/tensor/internal/ET/TensorMultiplyAdd.hpp)\<close>

text \<open>The node's three members \<open>m_left_operand\<close>, \<open>m_right_operand\<close>, \<open>m_add_operand\<close>.\<close>

record ('l, 'r, 'a) TensorMultiplyAdd =
  m_left_operand :: 'l
  m_right_operand :: 'r
  m_add_operand :: 'a

text \<open>The constructor copies its three arguments into the members.\<close>

definition TensorMultiplyAdd_ctor :: "'l \<Rightarrow> 'r \<Rightarrow> 'a \<Rightarrow> ('l, 'r, 'a) TensorMultiplyAdd" where
  "TensorMultiplyAdd_ctor left_operand right_operand add_operand =
     \<lparr>m_left_operand = left_operand, m_right_operand = right_operand,
      m_add_operand = add_operand\<rparr>"

text \<open>
  \<open>eval(tile)\<close>: \<open>return multiply_op::multiply_add(tile, m_left_operand, m_right_operand,
  m_add_operand);\<close>. The operation \<open>multiply_op::multiply_add\<close> of
  \<open>MultiplyOperator<LEFT_OPERAND_TYPE, RIGHT_OPERAND_TYPE>\<close> is a parameter.
\<close>

definition eval ::
  "('t \<Rightarrow> 'l \<Rightarrow> 'r \<Rightarrow> 'a \<Rightarrow> 'res) \<Rightarrow> ('l, 'r, 'a) TensorMultiplyAdd \<Rightarrow> 't \<Rightarrow> 'res" where
  "eval multiply_add node tile =
     multiply_add tile (m_left_operand node) (m_right_operand node) (m_add_operand node)"

text \<open>
  Modelled from the spec: \<open>MultiplyOperator::multiply_add\<close> is not in the source files.
  The specification has it compute \<open>left*right + add\<close> "via one fused operation call
  rather than two evaluations, when the backend provides a fused instruction", and
  fall "back to unfused multiply-then-add when it doesn't". An operand is an
  already-elaborated expression, evaluated on the tile; the result comes with the
  backend operations that were called for it.
\<close>

datatype backend_call = FusedMultiplyAdd | Multiply | Add

record 'v backend =
  fused_instruction :: "('v \<Rightarrow> 'v \<Rightarrow> 'v \<Rightarrow> 'v) option"
  multiply :: "'v \<Rightarrow> 'v \<Rightarrow> 'v"
  add :: "'v \<Rightarrow> 'v \<Rightarrow> 'v"

definition multiply_add ::
  "'v backend \<Rightarrow> 't \<Rightarrow> ('t \<Rightarrow> 'v) \<Rightarrow> ('t \<Rightarrow> 'v) \<Rightarrow> ('t \<Rightarrow> 'v) \<Rightarrow> 'v \<times> backend_call list" where
  "multiply_add b tile left_operand right_operand add_operand =
     (case fused_instruction b of
        Some fma \<Rightarrow>
          (fma (left_operand tile) (right_operand tile) (add_operand tile), [FusedMultiplyAdd])
      | None \<Rightarrow>
          (add b (multiply b (left_operand tile) (right_operand tile)) (add_operand tile),
           [Multiply, Add]))"

text \<open>Two backends over the integers, with and without a fused instruction.\<close>

definition fused_backend :: "int backend" where
  "fused_backend =
     \<lparr>fused_instruction = Some (\<lambda>x y z. x * y + z), multiply = (\<lambda>x y. x * y), add = (\<lambda>x y. x + y)\<rparr>"

definition unfused_backend :: "int backend" where
  "unfused_backend =
     \<lparr>fused_instruction = None, multiply = (\<lambda>x y. x * y), add = (\<lambda>x y. x + y)\<rparr>"


section \<open>Theorems\<close>


subsection \<open>The reduction protocol\<close>

text \<open>
  C1. For every operator and value type: \<open>init\<close> sets the reducer's \<open>val\<close> to the
  operator's identity (and leaves its target pointer and the accumulators alone);
  \<open>combine(out, in)\<close> sets \<open>out.val\<close> to the operator applied to \<open>out.val\<close> and \<open>in.val\<close>
  as they were, leaves \<open>in\<close>, a reducer other than \<open>out\<close>, unchanged, and writes no
  accumulator; \<open>resolve\<close> sets \<open>*red.target\<close> to the operator applied to \<open>red.val\<close> and
  the value \<open>*red.target\<close> had, and changes no reducer. For addition with identity 0,
  reducers with \<open>val\<close> 3 and 5 and a target that holds 10: after \<open>combine\<close> the
  surviving \<open>val\<close> is 8, and after \<open>resolve\<close> the target holds 18.
\<close>

theorem reduction_protocol:
  "val (reducers (init OP red m) red) = identity OP
   \<and> target (reducers (init OP red m) red) = target (reducers m red)
   \<and> cells (init OP red m) = cells m
   \<and> val (reducers (combine OP out inp m) out) =
       call OP (val (reducers m out)) (val (reducers m inp))
   \<and> target (reducers (combine OP out inp m) out) = target (reducers m out)
   \<and> (inp \<noteq> out \<longrightarrow> reducers (combine OP out inp m) inp = reducers m inp)
   \<and> cells (combine OP out inp m) = cells m
   \<and> cells (resolve OP red m) (target (reducers m red)) =
       call OP (val (reducers m red)) (cells m (target (reducers m red)))
   \<and> reducers (resolve OP red m) = reducers m
   \<and> val (reducers scenario_memory 0) = 3
   \<and> val (reducers scenario_memory 1) = 5
   \<and> cells scenario_memory (target (reducers scenario_memory 0)) = 10
   \<and> val (reducers (combine plus_op 0 1 scenario_memory) 0) = 8
   \<and> cells (resolve plus_op 0 (combine plus_op 0 1 scenario_memory))
        (target (reducers (combine plus_op 0 1 scenario_memory) 0)) = 18"
  by (simp add: init_def combine_def resolve_def plus_op_def scenario_memory_def)

theorem reduction_protocol_witness:
  "(1::nat) \<noteq> 0
   \<and> reducers (combine plus_op 0 1 scenario_memory) 1 = reducers scenario_memory 1
   \<and> val (reducers (combine plus_op 0 1 scenario_memory) 1) = 5"
  using reduction_protocol [where OP = plus_op and out = 0 and inp = 1 and m = scenario_memory]
  by (simp add: scenario_memory_def)


subsection \<open>Normalisation of the argument descriptors\<close>

lemma catList_append: "catList xs ys = xs @ ys"
  by (cases ys) simp_all

lemma listMaker_elements: "listMaker d = element_descriptors d"
  by (induction d rule: listMaker.induct) (simp_all add: catList_append)

lemma checkArgs_flat: "checkArgs ds = flat_sequence ds"
  by (induction ds) (simp_all add: flat_sequence_def catList_append listMaker_elements)

lemma element_descriptors_single: "list_all is_single (element_descriptors d)"
  by (cases d) (simp_all add: list_all_iff)

lemma flat_sequence_single: "list_all is_single (flat_sequence ds)"
  by (induction ds) (simp_all add: flat_sequence_def element_descriptors_single)

lemma extract_arg_data: "snd (extract_arg d data) = data"
  by (cases d) (auto split: option.splits)

lemma make_tuple_data: "snd (make_tuple ds data) = data"
proof (induction ds)
  case Nil
  then show ?case by simp
next
  case (Cons d ds)
  have "snd (extract_arg d data) = data" by (rule extract_arg_data)
  then show ?case using Cons
    by (auto split: prod.splits sum.splits)
qed

lemma make_tuple_order:
  "fst (make_tuple ds data) = Inr args
     \<longleftrightarrow> list_all2 (\<lambda>d a. fst (extract_arg d data) = Inr a) ds args"
proof (induction ds arbitrary: args)
  case Nil
  then show ?case by auto
next
  case (Cons d ds)
  obtain r where r: "extract_arg d data = (r, data)"
    using extract_arg_data[of d data] by (cases "extract_arg d data") simp
  obtain rs where rs: "make_tuple ds data = (rs, data)"
    using make_tuple_data[of ds data] by (cases "make_tuple ds data") simp
  show ?case
  proof (cases r)
    case (Inl e)
    then show ?thesis using r by (auto simp: list_all2_Cons1)
  next
    case (Inr a)
    note a = this
    show ?thesis
    proof (cases rs)
      case (Inl e)
      then show ?thesis using r rs a Cons.IH by (auto simp: list_all2_Cons1)
    next
      case (Inr as)
      then show ?thesis using r rs a Cons.IH by (auto simp: list_all2_Cons1)
    qed
  qed
qed

text \<open>
  C2. For every list of single and list descriptors the parser gives the flat sequence
  of the specification: each list descriptor replaced by its element descriptors in
  element order, the source order kept (the result for two lists, one after the other,
  is the first result followed by the second), only single descriptors, and the empty
  sequence for the empty list. The extraction over the normalised sequence succeeds
  with a tuple exactly when that tuple holds, position by position, what each
  descriptor of the flat sequence extracts; \<open>[SegList<0,1>, Param<2>]\<close> gives the value
  of segment 0, the value of segment 1 and parameter 2.
\<close>

theorem parser_flattens:
  "checkArgs [] = []
   \<and> checkArgs ds = flat_sequence ds
   \<and> checkArgs (ds @ ds') = checkArgs ds @ checkArgs ds'
   \<and> list_all is_single (checkArgs ds)
   \<and> (fst (make_tuple (checkArgs ds) data) = Inr args
        \<longleftrightarrow> list_all2 (\<lambda>d a. fst (extract_arg d data) = Inr a) (flat_sequence ds) args)
   \<and> checkArgs [SegList [0, 1], Param 2] = [Seg 0, Seg 1, Param 2]
   \<and> fst (make_tuple (checkArgs [SegList [0, 1], Param 2]) example_data) =
        Inr [SegmentValue 11, SegmentValue 20, ParamSlot 2]
   \<and> map (argument_value example_data) [SegmentValue 11, SegmentValue 20, ParamSlot 2] =
        [Some 11, Some 20, Some 9]"
proof -
  have "checkArgs (ds @ ds') = checkArgs ds @ checkArgs ds'"
    by (simp add: checkArgs_flat flat_sequence_def)
  moreover have "fst (make_tuple (checkArgs [SegList [0, 1], Param 2]) example_data) =
        Inr [SegmentValue 11, SegmentValue 20, ParamSlot 2]"
    by (simp add: example_data_def camp_get_def begin_at_def)
  moreover have "map (argument_value example_data) [SegmentValue 11, SegmentValue 20, ParamSlot 2] =
        [Some 11, Some 20, Some 9]"
    by (simp add: example_data_def camp_get_def begin_at_def)
  ultimately show ?thesis
    using checkArgs_flat[of ds] flat_sequence_single[of ds] make_tuple_order[of "flat_sequence ds" data args]
    by simp
qed

theorem parser_flattens_witness:
  "checkArgs [OffSetList [2, 0], Seg 1, ParamList [], OffSet 1, ParamList [1, 0]] =
     [OffSet 2, OffSet 0, Seg 1, OffSet 1, Param 1, Param 0]
   \<and> flat_sequence [OffSetList [2, 0], Seg 1, ParamList [], OffSet 1, ParamList [1, 0]] =
     [OffSet 2, OffSet 0, Seg 1, OffSet 1, Param 1, Param 0]"
  using parser_flattens [where ds = "[OffSetList [2, 0], Seg 1, ParamList [], OffSet 1, ParamList [1, 0]]"]
  by (simp add: flat_sequence_def)

subsection \<open>Argument extraction\<close>

text \<open>
  C5. For every context and id of its tuples: the extraction for \<open>OffSet<id>\<close> gives
  the offset slot of \<open>id\<close>, whose value is the current offset; for \<open>Seg<id>\<close>, with
  the offset inside the segment, the value of the segment at the current offset; and
  extraction, of one descriptor or of a whole list, leaves the context as it was.
\<close>

theorem extraction_reads:
  assumes "0 \<le> idx" "idx < int (length (offset_tuple data))"
  shows "fst (extract_arg (OffSet idx) data) = Inr (OffsetSlot idx)
    \<and> argument_value data (OffsetSlot idx) = Some (offset_tuple data ! nat idx)
    \<and> (idx < int (length (segment_tuple data))
         \<and> 0 \<le> offset_tuple data ! nat idx
         \<and> offset_tuple data ! nat idx < int (length (segment_tuple data ! nat idx))
       \<longrightarrow> fst (extract_arg (Seg idx) data) =
             Inr (SegmentValue (segment_tuple data ! nat idx ! nat (offset_tuple data ! nat idx))))
    \<and> snd (extract_arg d data) = data
    \<and> snd (make_tuple ds data) = data"
  using assms by (simp add: camp_get_def begin_at_def extract_arg_data make_tuple_data)

theorem extraction_reads_witness:
  "fst (extract_arg (OffSet 0) example_data) = Inr (OffsetSlot 0)
   \<and> argument_value example_data (OffsetSlot 0) = Some 1
   \<and> fst (extract_arg (Seg 0) example_data) = Inr (SegmentValue 11)
   \<and> snd (make_tuple [Seg 0, OffSet 0, Param 1] example_data) = example_data"
  using extraction_reads [where idx = 0 and data = example_data and ds = "[Seg 0, OffSet 0, Param 1]"]
  by (simp add: example_data_def camp_get_def begin_at_def)



subsection \<open>The executors of ForICount\<close>

lemma direct_exec:
  "direct_mapping hw p = Some i \<Longrightarrow>
   HipStatementExecutor_exec hw enclosed p ArgumentId ParamId data thread_active =
     (let len = segment_length ArgumentId data;
          data2 = assign_param ParamId i (assign_offset ArgumentId i data)
      in Some (enclosed data2 (thread_active \<and> i < len), [(data2, thread_active \<and> i < len)]))"
  by (cases p) (auto simp: Let_def)

lemma strided_exec:
  "strided_mapping hw p = Some (i_init, i_stride) \<Longrightarrow>
   HipStatementExecutor_exec hw enclosed p ArgumentId ParamId data thread_active =
     strided_loop (diff_t_bits hw) enclosed ArgumentId ParamId (segment_length ArgumentId data)
       i_init i_stride thread_active 0 data []"
  by (cases p) (auto simp: Let_def)

lemma has_slots_assign:
  "has_slots a p d \<Longrightarrow> has_slots a p (assign_param p' j (assign_offset a' i d))"
  by (simp add: has_slots_def assign_param_def assign_offset_def)

lemma has_slots_enclosed:
  "keeps_slots e \<Longrightarrow> has_slots a p d \<Longrightarrow> has_slots a p (e d f)"
  by (simp add: has_slots_def keeps_slots_def)

lemma observed_assign:
  assumes "has_slots a p d"
  shows "observed a p (assign_param p i (assign_offset a i d), f) = (i, i, f)"
proof -
  from assms have "nat a < length (offset_tuple d)" "nat p < length (param_tuple d)"
    by (auto simp: has_slots_def)
  then show ?thesis
    by (simp add: assign_param_def assign_offset_def observed_def)
qed

lemma keeps_slots_sum_body: "keeps_slots sum_body"
  by (simp add: keeps_slots_def sum_body_def)

lemma respects_mask_sum_body: "respects_mask sum_body"
  by (simp add: respects_mask_def sum_body_def)

lemma has_slots_ten_data: "has_slots 0 0 ten_data"
  by (simp add: has_slots_def ten_data_def)

lemma segment_length_ten_data: "segment_length 0 ten_data = 10"
  by (simp add: segment_length_def ten_data_def)

lemma concat_as_product:
  "concat (map (\<lambda>u. map (g u) (filter (P u) ks)) us) =
     map (\<lambda>(u, k). g u k) (filter (\<lambda>(u, k). P u k) (List.product us ks))"
  by (induction us) (simp_all add: filter_map o_def)

lemma strided_index_inj:
  fixes s :: int
  assumes "0 < s"
  shows "inj_on (\<lambda>(u, k). int k * s + int u) {(u, k). u < nat s}"
proof (rule inj_onI, clarify)
  fix u k u' k' :: nat
  assume u: "u < nat s" and u': "u' < nat s" and eq: "int k * s + int u = int k' * s + int u'"
  have "(int k * s + int u) div s = int k" "(int k * s + int u) mod s = int u"
    using u assms by auto
  moreover have "(int k' * s + int u') div s = int k'" "(int k' * s + int u') mod s = int u'"
    using u' assms by auto
  ultimately show "u = u' \<and> k = k'" using eq by auto
qed

lemma strided_partition:
  fixes s len :: int
  assumes "0 < s"
  shows "mset (concat (map (\<lambda>u. map (\<lambda>k. int k * s + int u)
                (filter (\<lambda>k. int k * s + int u < len) [0..<nat ((len + s - 1) div s)]))
            [0..<nat s])) = mset [0..len - 1]"
proof -
  let ?n = "nat ((len + s - 1) div s)"
  let ?g = "\<lambda>(u, k). int k * s + int u"
  let ?P = "\<lambda>(u, k). int k * s + int u < len"
  let ?xs = "filter ?P (List.product [0..<nat s] [0..<?n])"
  have eq: "concat (map (\<lambda>u. map (\<lambda>k. int k * s + int u)
                (filter (\<lambda>k. int k * s + int u < len) [0..<?n])) [0..<nat s]) = map ?g ?xs"
    by (rule concat_as_product)
  have "inj_on ?g (set ?xs)"
    by (rule inj_on_subset[OF strided_index_inj[OF assms]]) auto
  then have d: "distinct (map ?g ?xs)"
    by (simp add: distinct_map distinct_product)
  have "set (map ?g ?xs) = {0..len - 1}"
  proof (rule set_eqI, rule iffI)
    fix i assume "i \<in> set (map ?g ?xs)"
    then show "i \<in> {0..len - 1}" using assms by auto
  next
    fix i assume i: "i \<in> {0..len - 1}"
    let ?u = "nat (i mod s)" and ?k = "nat (i div s)"
    have i0: "0 \<le> i" "i < len" using i by auto
    have "0 \<le> i div s" using i0 assms by (simp add: pos_imp_zdiv_nonneg_iff)
    have "i div s \<le> (len - 1) div s" using i0 assms by (simp add: zdiv_mono1)
    also have "\<dots> < (len - 1) div s + 1" by simp
    also have "\<dots> = (len - 1 + s) div s"
    proof -
      have "s \<noteq> 0" using assms by simp
      then have "(len - 1 + s) div s = (len - 1) div s + 1"
        by (rule div_add_self2)
      then show ?thesis by (rule sym)
    qed
    also have "\<dots> = (len + s - 1) div s"
      by (simp add: algebra_simps)
    finally have k: "?k < ?n" using \<open>0 \<le> i div s\<close> by simp
    have u: "?u < nat s" using assms by (simp add: nat_less_iff)
    have g: "int ?k * s + int ?u = i" using assms \<open>0 \<le> i div s\<close> by simp
    have "(?u, ?k) \<in> set ?xs" using k u g i0 by simp
    then have "?g (?u, ?k) \<in> ?g ` set ?xs" by (rule imageI)
    then show "i \<in> set (map ?g ?xs)" using g by simp
  qed
  then have st: "set (map ?g ?xs) = set [0..len - 1]" by simp
  have "distinct [0..len - 1]" by simp
  from set_eq_iff_mset_eq_distinct[OF d this] st
  have "mset (map ?g ?xs) = mset [0..len - 1]" by blast
  then show ?thesis using eq by simp
qed

lemma trip_count_step:
  fixes len ii s :: int
  assumes "0 < s" "ii < len"
  shows "nat ((len - ii + s - 1) div s) = Suc (nat ((len - (ii + s) + s - 1) div s))"
proof -
  have "s \<noteq> 0" using assms by simp
  then have "(len - (ii + s) + s - 1 + s) div s = (len - (ii + s) + s - 1) div s + 1"
    by (rule div_add_self2)
  moreover have "len - ii + s - 1 = (len - (ii + s) + s - 1) + s" by simp
  ultimately have "(len - ii + s - 1) div s = (len - (ii + s) + s - 1) div s + 1"
    by (simp only:)
  moreover have "0 \<le> (len - (ii + s) + s - 1) div s"
    using assms by (simp add: pos_imp_zdiv_nonneg_iff)
  ultimately show ?thesis by simp
qed

lemma trip_count_done:
  fixes len ii s :: int
  assumes "0 < s" "\<not> ii < len"
  shows "nat ((len - ii + s - 1) div s) = 0"
proof -
  have lt: "len - ii + s - 1 < s" using assms by simp
  have "(len - ii + s - 1) div s \<le> 0"
  proof (cases "len - ii + s - 1 < 0")
    case True
    then have "(len - ii + s - 1) div s < 0"
      using assms(1) by (simp only: pos_imp_zdiv_neg_iff)
    then show ?thesis by simp
  next
    case False
    then have "(len - ii + s - 1) div s = 0"
      using lt by (simp only: div_pos_pos_trivial not_less)
    then show ?thesis by simp
  qed
  then show ?thesis by simp
qed

lemma active_indices_observed:
  "active_indices a cs = map fst (filter (\<lambda>(i, q, f). f) (map (observed a p) cs))"
  by (induction cs) (simp_all add: active_indices_def observed_def)

lemma diff_t_wrap_id:
  assumes "0 \<le> x" and "x \<le> diff_t_max bits" and "0 < diff_t_max bits"
  shows "diff_t_wrap bits x = x"
proof -
  obtain b where b: "bits = Suc b"
    using assms(3) by (cases bits) (simp_all add: diff_t_max_def)
  have "x + 2 ^ b < 2 * 2 ^ b" "0 \<le> x + (2::int) ^ b"
    using assms(1,2) b by (simp_all add: diff_t_max_def)
  then have "(x + 2 ^ b) mod (2 * 2 ^ b) = x + 2 ^ b"
    by simp
  then show ?thesis
    using b by (simp add: diff_t_wrap_def)
qed

lemma iterations_fold:
  "fst (iterations e a p xs d cs) =
     foldl (\<lambda>d (i, f). e (assign_param p i (assign_offset a i d)) f) d xs"
  by (induction xs arbitrary: d cs) auto

lemma iterations_observed:
  assumes "keeps_slots e"
  shows "has_slots a p d \<Longrightarrow>
    map (observed a p) (snd (iterations e a p xs d cs)) =
      map (observed a p) cs @ map (\<lambda>(i, f). (i, i, f)) xs"
proof (induction xs arbitrary: d cs)
  case Nil
  then show ?case by simp
next
  case (Cons x xs)
  obtain i f where x: "x = (i, f)" by (cases x)
  have hs: "has_slots a p (e (assign_param p i (assign_offset a i d)) f)"
    using Cons.prems assms by (simp add: has_slots_assign has_slots_enclosed)
  show ?case
    using Cons.IH[OF hs] Cons.prems by (simp add: x observed_assign)
qed

lemma iterations_active:
  assumes "keeps_slots e" and "has_slots a p d"
  shows "active_indices a (snd (iterations e a p xs d [])) = map fst (filter snd xs)"
proof -
  have "active_indices a (snd (iterations e a p xs d [])) =
      map fst (filter (\<lambda>(i, q, f). f) (map (\<lambda>(i, f). (i, i, f)) xs))"
    unfolding active_indices_observed[of a _ p] iterations_observed[OF assms] by simp
  also have "\<dots> = map fst (filter snd xs)"
    by (induction xs) auto
  finally show ?thesis .
qed

lemma strided_loop_run:
  assumes "0 < s" and "0 \<le> u" and "u < s"
  shows "0 \<le> ii \<Longrightarrow> n = nat ((len - ii + s - 1) div s) \<Longrightarrow>
    ii + int n * s \<le> diff_t_max bits \<Longrightarrow>
    strided_loop bits e a p len u s ta ii d calls =
      Some (iterations e a p
              (map (\<lambda>k. (ii + int k * s + u, ta \<and> ii + int k * s + u < len)) [0..<n]) d calls)"
proof (induction n arbitrary: ii d calls)
  case 0
  have "\<not> ii < len"
  proof
    assume "ii < len"
    from trip_count_step[OF assms(1) this] 0(2) show False by simp
  qed
  then show ?case by (subst strided_loop.simps) simp
next
  case (Suc n)
  have lt: "ii < len"
  proof (rule ccontr)
    assume "\<not> ii < len"
    from trip_count_done[OF assms(1) this] Suc(3) show False by simp
  qed
  have bound: "ii + s + int n * s \<le> diff_t_max bits"
    using Suc(4) by (simp add: algebra_simps)
  have "0 \<le> int n * s" using assms(1) by simp
  with bound have le: "ii + s \<le> diff_t_max bits" by linarith
  then have pos: "0 < diff_t_max bits" using Suc(2) assms(1) by linarith
  have wi: "diff_t_wrap bits (ii + u) = ii + u"
    using Suc(2) assms(2,3) le by (intro diff_t_wrap_id pos) linarith+
  have ws: "diff_t_wrap bits (ii + s) = ii + s"
    using Suc(2) assms(1) le by (intro diff_t_wrap_id pos) linarith+
  have n: "n = nat ((len - (ii + s) + s - 1) div s)"
    using trip_count_step[OF assms(1) lt] Suc(3) by simp
  have nn: "0 \<le> ii + s" using Suc(2) assms(1) by simp
  let ?d2 = "assign_param p (ii + u) (assign_offset a (ii + u) d)"
  let ?f = "ta \<and> ii + u < len"
  have up: "[0..<Suc n] = 0 # map Suc [0..<n]"
    by (simp add: upt_conv_Cons map_Suc_upt del: upt_Suc)
  have "strided_loop bits e a p len u s ta ii d calls =
      strided_loop bits e a p len u s ta (ii + s) (e ?d2 ?f) (calls @ [(?d2, ?f)])"
    using lt by (subst strided_loop.simps) (simp add: Let_def wi ws)
  also have "\<dots> = Some (iterations e a p
      (map (\<lambda>k. (ii + s + int k * s + u, ta \<and> ii + s + int k * s + u < len)) [0..<n])
      (e ?d2 ?f) (calls @ [(?d2, ?f)]))"
    by (rule Suc.IH[OF nn n bound])
  also have "\<dots> = Some (iterations e a p
      (map (\<lambda>k. (ii + int k * s + u, ta \<and> ii + int k * s + u < len)) [0..<Suc n]) d calls)"
    unfolding up by (simp add: o_def algebra_simps)
  finally show ?case .
qed

lemma seq_loop_run:
  "n = nat (len - i) \<Longrightarrow>
    seq_loop e a p len ta i d calls = iterations e a p (map (\<lambda>j. (j, ta)) [i..len - 1]) d calls"
proof (induction n arbitrary: i d calls)
  case 0
  then have "\<not> i < len" by simp
  then show ?case by (subst seq_loop.simps) simp
next
  case (Suc n)
  then have lt: "i < len" by simp
  have n: "n = nat (len - (i + 1))" using Suc(2) by simp
  have up: "[i..len - 1] = i # [i + 1..len - 1]"
    using lt by (simp add: upto_rec1)
  show ?case
    using lt Suc.IH[OF n] by (subst seq_loop.simps) (simp add: Let_def up)
qed

lemma strided_unit_run:
  assumes "0 < s" and "u < nat s" and "((len + s - 1) div s) * s \<le> diff_t_max bits"
  shows "strided_loop bits e a p len (int u) s True 0 d [] =
     Some (iterations e a p (strided_indices len s (int u)) d [])"
proof -
  have u: "0 \<le> int u" "int u < s" using assms(2) by auto
  have m: "0 \<le> diff_t_max bits" by (simp add: diff_t_max_def)
  have b: "0 + int (nat ((len - 0 + s - 1) div s)) * s \<le> diff_t_max bits"
  proof (cases "0 \<le> (len + s - 1) div s")
    case True
    then show ?thesis using assms(3) by simp
  next
    case False
    then show ?thesis using m by simp
  qed
  from strided_loop_run[OF assms(1) u, of 0 _ len bits e a p True d "[]", OF _ refl b]
  show ?thesis by (simp add: strided_indices_def)
qed

lemma strided_indices_active:
  "map fst (filter snd (strided_indices len s (int u))) =
     map (\<lambda>k. int k * s + int u)
       (filter (\<lambda>k. int k * s + int u < len) [0..<nat ((len + s - 1) div s)])"
  by (simp add: strided_indices_def filter_map o_def)

lemma segment_length_long_data: "segment_length 0 long_data = 1073741826"
  by (simp add: segment_length_def long_data_def long_segment_def)

lemma scenario_unit0:
  "map_option (\<lambda>run. active_indices 0 (snd run))
     (HipStatementExecutor_exec \<lparr>WARP_SIZE = 4, diff_t_bits = 64, threadIdx_x = 0\<rparr> sum_body hip_warp_loop 0 0 ten_data True)
   = Some [0, 4, 8]"
  by code_simp

lemma scenario_unit1:
  "map_option (\<lambda>run. active_indices 0 (snd run))
     (HipStatementExecutor_exec \<lparr>WARP_SIZE = 4, diff_t_bits = 64, threadIdx_x = 1\<rparr> sum_body hip_warp_loop 0 0 ten_data True)
   = Some [1, 5, 9]"
  by code_simp

lemma scenario_unit2:
  "map_option (\<lambda>run. active_indices 0 (snd run))
     (HipStatementExecutor_exec \<lparr>WARP_SIZE = 4, diff_t_bits = 64, threadIdx_x = 2\<rparr> sum_body hip_warp_loop 0 0 ten_data True)
   = Some [2, 6]"
  by code_simp

lemma scenario_unit3:
  "map_option (\<lambda>run. active_indices 0 (snd run))
     (HipStatementExecutor_exec \<lparr>WARP_SIZE = 4, diff_t_bits = 64, threadIdx_x = 3\<rparr> sum_body hip_warp_loop 0 0 ten_data True)
   = Some [3, 7]"
  by code_simp

text \<open>
  C3, as amended. For every segment length and every strided mapping (\<open>hip_warp_loop\<close>,
  the two masked loops and \<open>HipIndexLoop\<close>) with a stride \<open>s\<close> of at least 1 such that
  the first multiple of \<open>s\<close> at or above \<open>len\<close> is a value of \<open>diff_t\<close> (so that
  \<open>ii += i_stride\<close> does not overflow): each of the units with initial indices
  \<open>0, ..., s - 1\<close>, entered with \<open>thread_active\<close> set so that the flag handed on is
  \<open>have_work\<close>, returns, having gone through its indices \<open>u, u + s, u + 2s, ...\<close> as the
  iterations of the specification do (the context it returns is the enclosed
  statements applied in turn, each to the context with the index in the offset slot
  and in the parameter slot); and the indices at which the units call the enclosed
  statements with the flag set are, taken together, the indices \<open>0, ..., len - 1\<close>,
  each exactly once. For length 10 and four units with stride 4, unit 0 visits 0, 4, 8,
  unit 1 visits 1, 5, 9, unit 2 visits 2, 6 and unit 3 visits 3, 7.
\<close>

theorem strided_coverage:
  assumes stride: "0 < s"
    and fits: "((len + s - 1) div s) * s \<le> diff_t_max bits"
    and units: "\<forall>u<nat s. strided_mapping (hws u) p = Some (int u, s) \<and> diff_t_bits (hws u) = bits"
    and datas: "\<forall>u<nat s. has_slots ArgumentId ParamId (datas u)
                  \<and> segment_length ArgumentId (datas u) = len"
    and encl: "keeps_slots enclosed"
  shows "(\<forall>u<nat s.
        HipStatementExecutor_exec (hws u) enclosed p ArgumentId ParamId (datas u) True =
          Some (iterations enclosed ArgumentId ParamId (strided_indices len s (int u)) (datas u) [])
        \<and> fst (iterations enclosed ArgumentId ParamId (strided_indices len s (int u)) (datas u) []) =
            foldl (\<lambda>d (i, active). enclosed (assign_param ParamId i (assign_offset ArgumentId i d)) active)
              (datas u) (strided_indices len s (int u))
        \<and> active_indices ArgumentId
            (snd (iterations enclosed ArgumentId ParamId (strided_indices len s (int u)) (datas u) [])) =
            map fst (filter snd (strided_indices len s (int u))))
    \<and> mset (concat (map (\<lambda>u. map fst (filter snd (strided_indices len s (int u)))) [0..<nat s]))
        = mset [0..len - 1]
    \<and> map_option (\<lambda>run. active_indices 0 (snd run))
          (HipStatementExecutor_exec \<lparr>WARP_SIZE = 4, diff_t_bits = 64, threadIdx_x = 0\<rparr> sum_body
             hip_warp_loop 0 0 ten_data True) = Some [0, 4, 8]
    \<and> map_option (\<lambda>run. active_indices 0 (snd run))
          (HipStatementExecutor_exec \<lparr>WARP_SIZE = 4, diff_t_bits = 64, threadIdx_x = 1\<rparr> sum_body
             hip_warp_loop 0 0 ten_data True) = Some [1, 5, 9]
    \<and> map_option (\<lambda>run. active_indices 0 (snd run))
          (HipStatementExecutor_exec \<lparr>WARP_SIZE = 4, diff_t_bits = 64, threadIdx_x = 2\<rparr> sum_body
             hip_warp_loop 0 0 ten_data True) = Some [2, 6]
    \<and> map_option (\<lambda>run. active_indices 0 (snd run))
          (HipStatementExecutor_exec \<lparr>WARP_SIZE = 4, diff_t_bits = 64, threadIdx_x = 3\<rparr> sum_body
             hip_warp_loop 0 0 ten_data True) = Some [3, 7]"
proof -
  have each: "\<forall>u<nat s.
        HipStatementExecutor_exec (hws u) enclosed p ArgumentId ParamId (datas u) True =
          Some (iterations enclosed ArgumentId ParamId (strided_indices len s (int u)) (datas u) [])
        \<and> fst (iterations enclosed ArgumentId ParamId (strided_indices len s (int u)) (datas u) []) =
            foldl (\<lambda>d (i, active). enclosed (assign_param ParamId i (assign_offset ArgumentId i d)) active)
              (datas u) (strided_indices len s (int u))
        \<and> active_indices ArgumentId
            (snd (iterations enclosed ArgumentId ParamId (strided_indices len s (int u)) (datas u) [])) =
            map fst (filter snd (strided_indices len s (int u)))"
  proof (intro allI impI conjI)
    fix u assume u: "u < nat s"
    with units datas have m: "strided_mapping (hws u) p = Some (int u, s)"
      and b: "diff_t_bits (hws u) = bits"
      and hs: "has_slots ArgumentId ParamId (datas u)"
      and len: "segment_length ArgumentId (datas u) = len" by auto
    show "HipStatementExecutor_exec (hws u) enclosed p ArgumentId ParamId (datas u) True =
          Some (iterations enclosed ArgumentId ParamId (strided_indices len s (int u)) (datas u) [])"
      using strided_exec[OF m] strided_unit_run[OF stride u fits] by (simp add: b len)
    show "fst (iterations enclosed ArgumentId ParamId (strided_indices len s (int u)) (datas u) []) =
            foldl (\<lambda>d (i, active). enclosed (assign_param ParamId i (assign_offset ArgumentId i d)) active)
              (datas u) (strided_indices len s (int u))"
      by (rule iterations_fold)
    show "active_indices ArgumentId
            (snd (iterations enclosed ArgumentId ParamId (strided_indices len s (int u)) (datas u) [])) =
            map fst (filter snd (strided_indices len s (int u)))"
      by (rule iterations_active[OF encl hs])
  qed
  have cover: "mset (concat (map (\<lambda>u. map fst (filter snd (strided_indices len s (int u)))) [0..<nat s]))
        = mset [0..len - 1]"
    unfolding strided_indices_active by (rule strided_partition[OF stride])
  show ?thesis
    by (intro conjI each cover scenario_unit0 scenario_unit1 scenario_unit2 scenario_unit3)
qed

theorem strided_coverage_witness:
  "(0::int) < 4 \<and> ((10 + 4 - 1) div 4) * 4 \<le> diff_t_max 64
   \<and> keeps_slots sum_body \<and> has_slots 0 0 ten_data \<and> segment_length 0 ten_data = 10
   \<and> HipStatementExecutor_exec \<lparr>WARP_SIZE = 4, diff_t_bits = 64, threadIdx_x = 1\<rparr> sum_body
        hip_warp_loop 0 0 ten_data True =
       Some (iterations sum_body 0 0 [(1, True), (5, True), (9, True)] ten_data [])
   \<and> fst (iterations sum_body 0 0 [(1, True), (5, True), (9, True)] ten_data []) =
       ten_data\<lparr>offset_tuple := [9], param_tuple := [18]\<rparr>
   \<and> mset (concat (map (\<lambda>u. map fst (filter snd (strided_indices 10 4 (int u)))) [0..<nat 4]))
        = mset [0..10 - 1]"
proof -
  have s: "(0::int) < 4" by simp
  have f: "((10 + 4 - 1) div 4) * 4 \<le> diff_t_max 64" by (simp add: diff_t_max_def)
  have u: "\<forall>u<nat 4. strided_mapping \<lparr>WARP_SIZE = 4, diff_t_bits = 64, threadIdx_x = u\<rparr> hip_warp_loop
              = Some (int u, 4)
            \<and> diff_t_bits \<lparr>WARP_SIZE = 4, diff_t_bits = 64, threadIdx_x = u\<rparr> = 64"
    by simp
  have d: "\<forall>u<nat 4. has_slots 0 0 ten_data \<and> segment_length 0 ten_data = 10"
    by (simp add: has_slots_ten_data segment_length_ten_data)
  have i: "strided_indices 10 4 (int 1) = [(1, True), (5, True), (9, True)]"
    by code_simp
  have r: "fst (iterations sum_body 0 0 [(1, True), (5, True), (9, True)] ten_data []) =
       ten_data\<lparr>offset_tuple := [9], param_tuple := [18]\<rparr>"
    by code_simp
  from strided_coverage [OF s f u d keeps_slots_sum_body]
  have a: "\<forall>u<nat 4.
        HipStatementExecutor_exec \<lparr>WARP_SIZE = 4, diff_t_bits = 64, threadIdx_x = u\<rparr> sum_body
          hip_warp_loop 0 0 ten_data True =
          Some (iterations sum_body 0 0 (strided_indices 10 4 (int u)) ten_data [])"
    and c: "mset (concat (map (\<lambda>u. map fst (filter snd (strided_indices 10 4 (int u)))) [0..<nat 4]))
        = mset [0..10 - 1]"
    by blast+
  have one: "(1::nat) < nat 4" by simp
  have x: "HipStatementExecutor_exec \<lparr>WARP_SIZE = 4, diff_t_bits = 64, threadIdx_x = 1\<rparr> sum_body
          hip_warp_loop 0 0 ten_data True =
          Some (iterations sum_body 0 0 (strided_indices 10 4 (int 1)) ten_data [])"
    by (rule a[rule_format, OF one])
  show ?thesis
    by (intro conjI s f keeps_slots_sum_body has_slots_ten_data segment_length_ten_data
        x[unfolded i] r c)
qed

text \<open>
  C3 as stated fails for a length near the greatest value of \<open>diff_t\<close>: with a 32-bit
  \<open>diff_t\<close>, a segment of \<open>2^30 + 2\<close> indices and a stride of \<open>2^30 + 1\<close>, the third value
  of \<open>ii\<close> is beyond the type and wraps around, and unit 0 calls the enclosed
  statements with the flag set at two negative indices and at index 4, which is
  unit 4's.
\<close>

theorem strided_overflow_counterexample:
  "\<not> ((1073741826 + 1073741825 - 1) div 1073741825) * 1073741825 \<le> diff_t_max 32
   \<and> segment_length 0 long_data = 1073741826
   \<and> strided_mapping \<lparr>WARP_SIZE = 64, diff_t_bits = 32, threadIdx_x = 0\<rparr> (HipIndexLoop wide_indexer)
       = Some (0, 1073741825)
   \<and> map_option (active_indices 0 \<circ> snd)
       (HipStatementExecutor_exec \<lparr>WARP_SIZE = 64, diff_t_bits = 32, threadIdx_x = 0\<rparr> sum_body
          (HipIndexLoop wide_indexer) 0 0 long_data True)
     = Some [0, 1073741825, - 2147483646, - 1073741821, 4]"
proof -
  have e: "HipStatementExecutor_exec \<lparr>WARP_SIZE = 64, diff_t_bits = 32, threadIdx_x = 0\<rparr> sum_body
          (HipIndexLoop wide_indexer) 0 0 long_data True =
        strided_loop 32 sum_body 0 0 1073741826 0 1073741825 True 0 long_data []"
    by (simp add: segment_length_long_data wide_indexer_def Let_def)
  have "map_option (active_indices 0 \<circ> snd)
          (strided_loop 32 sum_body 0 0 1073741826 0 1073741825 True 0 long_data [])
        = Some [0, 1073741825, - 2147483646, - 1073741821, 4]"
    by (simp add: strided_loop.simps Let_def diff_t_wrap_def assign_offset_def assign_param_def
        sum_body_def long_data_def active_indices_def)
  then show ?thesis
    using e by (simp add: segment_length_long_data wide_indexer_def diff_t_max_def)
qed

text \<open>
  C4. For every segment length and every direct-mapped unit with natural index \<open>i\<close>
  (\<open>hip_warp_direct\<close>, the two masked direct policies and \<open>HipIndexDirect\<close>): the
  executor returns, having called the enclosed statements once, with the flag
  \<open>thread_active \<and> i < len\<close>; for \<open>len = 0\<close> the flag is unset whatever the unit; for an
  index at or beyond \<open>len\<close> the flag is unset, and enclosed statements that apply their
  effects only when active leave the context as the executor handed it to them.
\<close>

theorem direct_masking:
  assumes "direct_mapping hw p = Some i" and "0 \<le> i"
  shows "HipStatementExecutor_exec hw enclosed p ArgumentId ParamId data thread_active =
       Some (enclosed (assign_param ParamId i (assign_offset ArgumentId i data))
               (thread_active \<and> i < segment_length ArgumentId data),
             [(assign_param ParamId i (assign_offset ArgumentId i data),
               thread_active \<and> i < segment_length ArgumentId data)])
     \<and> (segment_length ArgumentId data = 0 \<longrightarrow>
          (thread_active \<and> i < segment_length ArgumentId data) = False)
     \<and> (segment_length ArgumentId data \<le> i \<longrightarrow>
          (thread_active \<and> i < segment_length ArgumentId data) = False)
     \<and> (segment_length ArgumentId data \<le> i \<and> respects_mask enclosed \<longrightarrow>
          HipStatementExecutor_exec hw enclosed p ArgumentId ParamId data thread_active =
            Some (assign_param ParamId i (assign_offset ArgumentId i data),
                  [(assign_param ParamId i (assign_offset ArgumentId i data), False)]))"
  using assms by (auto simp: direct_exec Let_def respects_mask_def)

theorem direct_masking_witness:
  "direct_mapping \<lparr>WARP_SIZE = 64, diff_t_bits = 64, threadIdx_x = 12\<rparr> (hip_warp_masked_direct low_bits) = Some 0
   \<and> HipStatementExecutor_exec \<lparr>WARP_SIZE = 64, diff_t_bits = 64, threadIdx_x = 12\<rparr> sum_body
        (hip_warp_masked_direct low_bits) 0 0 (ten_data\<lparr>segment_tuple := [[]]\<rparr>) True
      = Some (ten_data\<lparr>segment_tuple := [[]]\<rparr>, [(ten_data\<lparr>segment_tuple := [[]]\<rparr>, False)])
   \<and> direct_mapping \<lparr>WARP_SIZE = 64, diff_t_bits = 64, threadIdx_x = 12\<rparr> hip_warp_direct = Some 12
   \<and> HipStatementExecutor_exec \<lparr>WARP_SIZE = 64, diff_t_bits = 64, threadIdx_x = 12\<rparr> sum_body hip_warp_direct 0 0
        ten_data True
      = Some (ten_data\<lparr>offset_tuple := [12], param_tuple := [12]\<rparr>,
              [(ten_data\<lparr>offset_tuple := [12], param_tuple := [12]\<rparr>, False)])"
proof -
  have a: "direct_mapping \<lparr>WARP_SIZE = 64, diff_t_bits = 64, threadIdx_x = 12\<rparr> (hip_warp_masked_direct low_bits) = Some 0"
    by (simp add: low_bits_def)
  have b: "direct_mapping \<lparr>WARP_SIZE = 64, diff_t_bits = 64, threadIdx_x = 12\<rparr> hip_warp_direct = Some 12"
    by simp
  from direct_masking [OF a, of sum_body 0 0 "ten_data\<lparr>segment_tuple := [[]]\<rparr>" True]
       direct_masking [OF b, of sum_body 0 0 ten_data True]
  show ?thesis
    using a b respects_mask_sum_body
    by (simp add: segment_length_def ten_data_def assign_param_def assign_offset_def sum_body_def)
qed

text \<open>
  C10. For every direct and masked direct executor and ids inside the tuples: the
  context handed to the enclosed statements is the incoming one with the index \<open>i\<close>
  in the offset slot of \<open>ArgumentId\<close> and in the parameter slot of \<open>ParamId\<close>, whatever
  \<open>thread_active\<close> and the segment length are; the two slots hold the same value; the
  flag \<open>thread_active \<and> i < len\<close> only goes to the enclosed statements.
\<close>

theorem direct_writes:
  assumes "direct_mapping hw p = Some i" and "has_slots ArgumentId ParamId data"
  shows "\<exists>data2.
     HipStatementExecutor_exec hw enclosed p ArgumentId ParamId data thread_active =
       Some (enclosed data2 (thread_active \<and> i < segment_length ArgumentId data),
             [(data2, thread_active \<and> i < segment_length ArgumentId data)])
     \<and> data2 = data\<lparr>offset_tuple := (offset_tuple data)[nat ArgumentId := i],
                    param_tuple := (param_tuple data)[nat ParamId := i]\<rparr>
     \<and> offset_tuple data2 ! nat ArgumentId = i
     \<and> param_tuple data2 ! nat ParamId = i
     \<and> param_tuple data2 ! nat ParamId = offset_tuple data2 ! nat ArgumentId"
proof -
  from assms(2) have "nat ArgumentId < length (offset_tuple data)"
    "nat ParamId < length (param_tuple data)"
    by (auto simp: has_slots_def)
  then show ?thesis
    using assms(1) by (simp add: direct_exec Let_def assign_param_def assign_offset_def)
qed

theorem direct_writes_witness:
  "direct_mapping \<lparr>WARP_SIZE = 64, diff_t_bits = 64, threadIdx_x = 12\<rparr> hip_warp_direct = Some 12
   \<and> has_slots 0 0 ten_data
   \<and> \<not> (12 < segment_length 0 ten_data)
   \<and> (\<exists>data2.
        HipStatementExecutor_exec \<lparr>WARP_SIZE = 64, diff_t_bits = 64, threadIdx_x = 12\<rparr> sum_body hip_warp_direct 0 0
          ten_data False = Some (sum_body data2 False, [(data2, False)])
        \<and> offset_tuple data2 = [12] \<and> param_tuple data2 = [12])"
proof -
  have a: "direct_mapping \<lparr>WARP_SIZE = 64, diff_t_bits = 64, threadIdx_x = 12\<rparr> hip_warp_direct = Some 12"
    by simp
  from direct_writes [OF a has_slots_ten_data, of sum_body False]
  show ?thesis
    using a has_slots_ten_data by (simp add: segment_length_ten_data) (simp add: ten_data_def)
qed

text \<open>
  C8, as amended. For every segment length, the sequential executor returns, having
  gone through the indices of \<open>[0, len)\<close> in increasing order, each once, as the
  iterations of the specification do, with the incoming \<open>thread_active\<close> as the flag of
  every call: the context it returns is the enclosed statements applied in turn, each
  to the context with the index in the offset slot and in the parameter slot, and
  (for ids inside the tuples) each call shows the index in both slots. There is no
  masking by the index, and the calls are active exactly when the executor was entered
  active.
\<close>

theorem sequential_range:
  "HipStatementExecutor_exec hw enclosed seq_exec ArgumentId ParamId data thread_active =
     Some (iterations enclosed ArgumentId ParamId
             (map (\<lambda>i. (i, thread_active)) [0..segment_length ArgumentId data - 1]) data [])
   \<and> fst (iterations enclosed ArgumentId ParamId
             (map (\<lambda>i. (i, thread_active)) [0..segment_length ArgumentId data - 1]) data []) =
       foldl (\<lambda>d i. enclosed (assign_param ParamId i (assign_offset ArgumentId i d)) thread_active)
         data [0..segment_length ArgumentId data - 1]
   \<and> (has_slots ArgumentId ParamId data \<and> keeps_slots enclosed \<longrightarrow>
        map (observed ArgumentId ParamId)
          (snd (iterations enclosed ArgumentId ParamId
             (map (\<lambda>i. (i, thread_active)) [0..segment_length ArgumentId data - 1]) data [])) =
        map (\<lambda>i. (i, i, thread_active)) [0..segment_length ArgumentId data - 1])"
proof (intro conjI impI)
  show "HipStatementExecutor_exec hw enclosed seq_exec ArgumentId ParamId data thread_active =
     Some (iterations enclosed ArgumentId ParamId
             (map (\<lambda>i. (i, thread_active)) [0..segment_length ArgumentId data - 1]) data [])"
    using seq_loop_run[OF refl, of enclosed ArgumentId ParamId "segment_length ArgumentId data"
        thread_active 0 data "[]"]
    by (simp add: Let_def)
  show "fst (iterations enclosed ArgumentId ParamId
             (map (\<lambda>i. (i, thread_active)) [0..segment_length ArgumentId data - 1]) data []) =
       foldl (\<lambda>d i. enclosed (assign_param ParamId i (assign_offset ArgumentId i d)) thread_active)
         data [0..segment_length ArgumentId data - 1]"
    by (simp add: iterations_fold foldl_map)
  assume "has_slots ArgumentId ParamId data \<and> keeps_slots enclosed"
  then show "map (observed ArgumentId ParamId)
          (snd (iterations enclosed ArgumentId ParamId
             (map (\<lambda>i. (i, thread_active)) [0..segment_length ArgumentId data - 1]) data [])) =
        map (\<lambda>i. (i, i, thread_active)) [0..segment_length ArgumentId data - 1]"
    by (simp add: iterations_observed o_def)
qed

theorem sequential_range_witness:
  "has_slots 0 0 ten_data \<and> keeps_slots sum_body
   \<and> HipStatementExecutor_exec \<lparr>WARP_SIZE = 64, diff_t_bits = 64, threadIdx_x = 5\<rparr> sum_body seq_exec
        0 0 ten_data True =
       Some (iterations sum_body 0 0
               [(0, True), (1, True), (2, True), (3, True), (4, True),
                (5, True), (6, True), (7, True), (8, True), (9, True)] ten_data [])
   \<and> fst (iterations sum_body 0 0
               [(0, True), (1, True), (2, True), (3, True), (4, True),
                (5, True), (6, True), (7, True), (8, True), (9, True)] ten_data []) =
       ten_data\<lparr>offset_tuple := [9], param_tuple := [18]\<rparr>
   \<and> map (observed 0 0)
        (snd (iterations sum_body 0 0
               [(0, True), (1, True), (2, True), (3, True), (4, True),
                (5, True), (6, True), (7, True), (8, True), (9, True)] ten_data [])) =
       [(0, 0, True), (1, 1, True), (2, 2, True), (3, 3, True), (4, 4, True),
        (5, 5, True), (6, 6, True), (7, 7, True), (8, 8, True), (9, 9, True)]"
proof -
  have l: "[0..segment_length 0 ten_data - 1] = [0, 1, 2, 3, 4, 5, 6, 7, 8, 9]"
    unfolding segment_length_ten_data by code_simp
  have r: "fst (iterations sum_body 0 0
               [(0, True), (1, True), (2, True), (3, True), (4, True),
                (5, True), (6, True), (7, True), (8, True), (9, True)] ten_data []) =
       ten_data\<lparr>offset_tuple := [9], param_tuple := [18]\<rparr>"
    by code_simp
  from sequential_range [of "\<lparr>WARP_SIZE = 64, diff_t_bits = 64, threadIdx_x = 5\<rparr>" sum_body 0 0
      ten_data True]
  show ?thesis
    unfolding l using has_slots_ten_data keeps_slots_sum_body r by simp
qed

text \<open>
  C8 as stated fails: entered with \<open>thread_active\<close> unset, the sequential executor calls
  the enclosed statements with the flag unset, so not every call is active.
\<close>

theorem sequential_inactive_counterexample:
  "map_option (list_all snd \<circ> snd)
     (HipStatementExecutor_exec \<lparr>WARP_SIZE = 64, diff_t_bits = 64, threadIdx_x = 5\<rparr> sum_body seq_exec 0 0 ten_data False)
   = Some False"
  by code_simp

text \<open>
  C7, as amended. For the masked warp policies (\<open>hip_warp_masked_direct\<close>,
  \<open>hip_warp_masked_loop\<close>) the instantiation of the executor fails, with the message
  "BitMask is too large for HIP warp size", exactly when the mask's greatest masked
  size exceeds the warp size; the masked thread policies carry no assertion; and what
  the masked warp executors do when they run does not depend on the warp size.
\<close>

theorem mask_assertion:
  "static_assert warp_size (hip_warp_masked_direct mask_t) =
     (if warp_size < int (max_masked_size mask_t)
      then Some ''BitMask is too large for HIP warp size'' else None)
   \<and> static_assert warp_size (hip_warp_masked_loop mask_t) =
     (if warp_size < int (max_masked_size mask_t)
      then Some ''BitMask is too large for HIP warp size'' else None)
   \<and> static_assert warp_size (hip_thread_masked_direct mask_t) = None
   \<and> static_assert warp_size (hip_thread_masked_loop mask_t) = None
   \<and> HipStatementExecutor_exec (hw\<lparr>WARP_SIZE := warp_size\<rparr>) enclosed (hip_warp_masked_direct mask_t)
        ArgumentId ParamId data thread_active =
      HipStatementExecutor_exec hw enclosed (hip_warp_masked_direct mask_t)
        ArgumentId ParamId data thread_active
   \<and> HipStatementExecutor_exec (hw\<lparr>WARP_SIZE := warp_size\<rparr>) enclosed (hip_warp_masked_loop mask_t)
        ArgumentId ParamId data thread_active =
      HipStatementExecutor_exec hw enclosed (hip_warp_masked_loop mask_t)
        ArgumentId ParamId data thread_active"
  by simp

theorem mask_assertion_witness:
  "static_assert 64 (hip_warp_masked_direct wide_mask) = Some ''BitMask is too large for HIP warp size''
   \<and> static_assert 64 (hip_warp_masked_loop wide_mask) = Some ''BitMask is too large for HIP warp size''
   \<and> static_assert 64 (hip_warp_masked_loop low_bits) = None"
  using mask_assertion [of 64 wide_mask] mask_assertion [of 64 low_bits]
  by (simp add: wide_mask_def low_bits_def)

text \<open>
  C7 as stated fails for the masked thread policies: a mask of 128 values with a warp
  of 64 lanes passes their instantiation.
\<close>

theorem thread_mask_counterexample:
  "int (max_masked_size wide_mask) > 64
   \<and> static_assert 64 (hip_thread_masked_direct wide_mask) = None
   \<and> static_assert 64 (hip_thread_masked_loop wide_mask) = None"
  by (simp add: wide_mask_def)

subsection \<open>The fused multiply-add expression\<close>

text \<open>
  C9. Construction stores the three operands as given; \<open>eval(tile)\<close> is one call of
  \<open>multiply_op::multiply_add\<close> on the tile and the three stored operands, whatever that
  operation is; and with the operation of the specification it is one fused call of
  the backend when the backend has a fused instruction, and a multiplication followed
  by an addition only when it has none.
\<close>

theorem fused_eval:
  "m_left_operand (TensorMultiplyAdd_ctor left_operand right_operand add_operand) = left_operand
   \<and> m_right_operand (TensorMultiplyAdd_ctor left_operand right_operand add_operand) = right_operand
   \<and> m_add_operand (TensorMultiplyAdd_ctor left_operand right_operand add_operand) = add_operand
   \<and> eval mul_add (TensorMultiplyAdd_ctor left_operand right_operand add_operand) tile =
       mul_add tile left_operand right_operand add_operand
   \<and> eval (multiply_add b) (TensorMultiplyAdd_ctor l r a) tile =
       (case fused_instruction b of
          Some fma \<Rightarrow> (fma (l tile) (r tile) (a tile), [FusedMultiplyAdd])
        | None \<Rightarrow> (add b (multiply b (l tile) (r tile)) (a tile), [Multiply, Add]))
   \<and> eval (multiply_add fused_backend)
        (TensorMultiplyAdd_ctor (\<lambda>t. 2 * t) (\<lambda>t. t + 1) (\<lambda>t. 4)) 3 = (28, [FusedMultiplyAdd])
   \<and> eval (multiply_add unfused_backend)
        (TensorMultiplyAdd_ctor (\<lambda>t. 2 * t) (\<lambda>t. t + 1) (\<lambda>t. 4)) 3 = (28, [Multiply, Add])"
  by (simp add: TensorMultiplyAdd_ctor_def eval_def multiply_add_def fused_backend_def
      unfused_backend_def)

theorem fused_eval_witness:
  "eval (multiply_add fused_backend) (TensorMultiplyAdd_ctor (\<lambda>t. t) (\<lambda>t. t) (\<lambda>t. 1)) (5::int)
     = (26, [FusedMultiplyAdd])"
  using fused_eval [where b = fused_backend and l = "\<lambda>t. t" and r = "\<lambda>t. t" and a = "\<lambda>t. 1"
      and tile = "5::int"]
  by (simp add: TensorMultiplyAdd_ctor_def eval_def multiply_add_def fused_backend_def)

end
